theory Spec2Isabelle
  imports Main "HOL-Library.Word"
begin

unbundle bit_operations_syntax

section \<open>RTL RootFS tool (scripts/rootfs\_tool.py)\<close>

text \<open>
  The tool reads one file and, for three of its four commands, writes another. A file is
  the list of its bytes. Python integers are unbounded, so they are \<open>int\<close>; cursor
  positions and lengths are \<open>nat\<close>. The input and output paths are taken to name
  different files.
\<close>

type_synonym byte = "8 word"

text \<open>
  Two exceptions can end a command: \<open>struct.error\<close>, raised by \<open>struct.unpack\<close> on a
  buffer of the wrong length and by \<open>struct.pack\<close> on a value out of range, and the
  \<open>RuntimeError\<close> the tool raises itself, with its message.
\<close>

datatype error = StructError | RuntimeError string

definition SQUASHFS_MAGIC_BE :: int where
  "SQUASHFS_MAGIC_BE = 0x68737173"

definition SIZE_OF_SQFS_SUPER_BLOCK :: int where
  "SIZE_OF_SQFS_SUPER_BLOCK = 640"

subsection \<open>struct.pack and struct.unpack, big-endian\<close>

definition be_int :: "byte list \<Rightarrow> int" where
  "be_int bs = foldl (\<lambda>a b. a * 256 + uint b) 0 bs"

text \<open>\<open>struct.unpack(">H", b)\<close>: exactly two bytes, or \<open>struct.error\<close>.\<close>

definition unpack_H :: "byte list \<Rightarrow> error + int" where
  "unpack_H b = (if length b = 2 then Inr (be_int b) else Inl StructError)"

text \<open>\<open>struct.unpack(">II", b)\<close>: exactly eight bytes.\<close>

definition unpack_II :: "byte list \<Rightarrow> error + (int \<times> int)" where
  "unpack_II b =
     (if length b = 8 then Inr (be_int (take 4 b), be_int (take 4 (drop 4 b)))
      else Inl StructError)"

text \<open>
  \<open>struct.calcsize(">IIIIIH")\<close> is 4 + 4 + 4 + 4 + 4 + 2 = 22, and
  \<open>struct.unpack(">IIIIIH", b)\<close> wants exactly that many bytes.
\<close>

definition calcsize_IIIIIH :: nat where
  "calcsize_IIIIIH = 22"

definition unpack_IIIIIH :: "byte list \<Rightarrow> error + (int \<times> int \<times> int \<times> int \<times> int \<times> int)" where
  "unpack_IIIIIH b =
     (if length b = calcsize_IIIIIH
      then Inr (be_int (take 4 b), be_int (take 4 (drop 4 b)), be_int (take 4 (drop 8 b)),
                be_int (take 4 (drop 12 b)), be_int (take 4 (drop 16 b)),
                be_int (take 2 (drop 20 b)))
      else Inl StructError)"

text \<open>\<open>struct.pack(">H", v)\<close> and \<open>struct.pack(">I", v)\<close>: the value must fit the field.\<close>

definition pack_H :: "int \<Rightarrow> error + byte list" where
  "pack_H v =
     (if 0 \<le> v \<and> v \<le> 0xFFFF then Inr [word_of_int (v div 256), word_of_int v]
      else Inl StructError)"

definition pack_I :: "int \<Rightarrow> error + byte list" where
  "pack_I v =
     (if 0 \<le> v \<and> v \<le> 0xFFFFFFFF
      then Inr [word_of_int (v div 16777216), word_of_int (v div 65536),
                word_of_int (v div 256), word_of_int v]
      else Inl StructError)"

subsection \<open>File reads\<close>

text \<open>\<open>f.read(n)\<close> at cursor \<open>pos\<close>: at most \<open>n\<close> bytes, fewer at the end of the file.\<close>

definition fread :: "byte list \<Rightarrow> nat \<Rightarrow> nat \<Rightarrow> byte list" where
  "fread file pos n = take n (drop pos file)"

subsection \<open>What a command leaves behind\<close>

text \<open>
  When a command ends, by returning or by raising, \<open>cursor\<close> is the position of its
  input file (\<open>f.tell()\<close>), \<open>outfile\<close> the content of its output file (\<open>None\<close> while
  it has not been opened for writing) and \<open>acc\<close> the local variable \<open>checksum\<close>
  (\<open>None\<close> while it has not been assigned). A command's result pairs this with its outcome: the exception raised, or
  the lines printed.
\<close>

record st =
  cursor :: nat
  outfile :: "byte list option"
  acc :: "int option"

type_synonym outcome = "error + string list"

subsection \<open>\_checksum\_buffer\<close>

text \<open>
  \<open>for i in range(0, len(b), 2)\<close>: the slice \<open>b[i:i+2]\<close> is one byte long at the end
  of a buffer of odd length, and \<open>struct.unpack\<close> raises there.
\<close>

function checksum_from :: "byte list \<Rightarrow> nat \<Rightarrow> int \<Rightarrow> error + int" where
  "checksum_from b i checksum =
     (if i < length b
      then (case unpack_H (take 2 (drop i b)) of
              Inl e \<Rightarrow> Inl e
            | Inr word \<Rightarrow> checksum_from b (i + 2) ((checksum + word) AND 0xFFFF))
      else Inr checksum)"
  by pat_completeness auto
termination
  by (relation "measure (\<lambda>(b, i, checksum). length b - i)") auto

declare checksum_from.simps [simp del]

definition checksum_buffer :: "byte list \<Rightarrow> int \<Rightarrow> error + int" where
  "checksum_buffer b checksum = checksum_from b 0 checksum"

subsection \<open>cmd\_check\<close>

text \<open>The loop \<open>for _ in range(rtl_size//2)\<close>, from cursor \<open>p\<close> with accumulator \<open>c\<close>.\<close>

fun check_loop :: "byte list \<Rightarrow> nat \<Rightarrow> nat \<Rightarrow> int \<Rightarrow> error option \<times> nat \<times> int" where
  "check_loop file 0 p c = (None, p, c)"
| "check_loop file (Suc n) p c =
     (let b = fread file p 2; p' = p + length b in
      case unpack_H b of
        Inl e \<Rightarrow> (Some e, p', c)
      | Inr word \<Rightarrow> check_loop file n p' ((c + word) AND 0xFFFF))"

definition cmd_check :: "byte list \<Rightarrow> outcome \<times> st" where
  "cmd_check file =
     (let file_size = int (length file);
          hdr = fread file 0 calcsize_IIIIIH;
          s = \<lparr>cursor = length hdr, outfile = None, acc = None\<rparr>
      in case unpack_IIIIIH hdr of
           Inl e \<Rightarrow> (Inl e, s)
         | Inr (magic, inode_count, modification_time, block_size,
                fragment_entry_count, compression_id) \<Rightarrow>
             if magic \<noteq> SQUASHFS_MAGIC_BE
             then (Inl (RuntimeError ''Doesn't appear to be a SquashFS.''), s)
             else
               let rtl_size = modification_time + SIZE_OF_SQFS_SUPER_BLOCK + 2 in
               if rtl_size > file_size
               then (Inl (RuntimeError ''Not an RTL Squash filesystem''), s)
               else
                 (case check_loop file (nat (rtl_size div 2)) 0 0 of
                    (Some e, p, c) \<Rightarrow> (Inl e, s\<lparr>cursor := p, acc := Some c\<rparr>)
                  | (None, p, c) \<Rightarrow>
                      (Inr [if c \<noteq> 0 then ''Checksum failed'' else ''Checksum passed''],
                       s\<lparr>cursor := p, acc := Some c\<rparr>)))"

subsection \<open>cmd\_build and cmd\_sum\<close>

text \<open>
  The loop \<open>while True: b = fIn.read(1024) ...\<close>, from cursor \<open>p\<close>, with the bytes
  written so far in \<open>w\<close> and the accumulator in \<open>c\<close>.
\<close>

function build_loop ::
  "bool \<Rightarrow> byte list \<Rightarrow> nat \<Rightarrow> byte list \<Rightarrow> int \<Rightarrow> error option \<times> nat \<times> byte list \<times> int" where
  "build_loop checksum_only file p w c =
     (let b = fread file p 1024 in
      if b = [] then (None, p, w, c)
      else
        let p' = p + length b;
            b' = (if length b mod 2 \<noteq> 0 then b @ [0] else b)
        in case checksum_buffer b' c of
             Inl e \<Rightarrow> (Some e, p', w, c)
           | Inr c' \<Rightarrow>
               build_loop checksum_only file p' (if \<not> checksum_only then w @ b' else w) c')"
  by pat_completeness auto
termination
  by (relation "measure (\<lambda>(checksum_only, file, p, w, c). length file - p)")
     (auto simp: fread_def)

declare build_loop.simps [simp del]

text \<open>
  \<open>checksum_only\<close> is the value of \<open>'checksum_only' in args and args.checksum_only\<close>:
  false for the \<open>build\<close> command, whose arguments have no such attribute, true when
  \<open>cmd_sum\<close> has set it.
\<close>

definition cmd_build :: "bool \<Rightarrow> byte list \<Rightarrow> outcome \<times> st" where
  "cmd_build checksum_only file =
     (let squashfs_size0 = int (length file) - SIZE_OF_SQFS_SUPER_BLOCK;
          squashfs_size = (if squashfs_size0 mod 2 \<noteq> 0 then squashfs_size0 + 1
                           else squashfs_size0);
          header_prefix = fread file 0 8;
          s = \<lparr>cursor = length header_prefix, outfile = None, acc = None\<rparr>
      in case unpack_II header_prefix of
           Inl e \<Rightarrow> (Inl e, s)
         | Inr (magic, _) \<Rightarrow>
             if magic \<noteq> SQUASHFS_MAGIC_BE
             then (Inl (RuntimeError ''Doesn't appear to be a SquashFS.''), s)
             else
               let p = cursor s + length (fread file (cursor s) 4);
                   s = s\<lparr>cursor := p\<rparr>
               in case pack_I squashfs_size of
                    Inl e \<Rightarrow> (Inl e, s)
                  | Inr size_bytes \<Rightarrow>
                      let header_prefix = header_prefix @ size_bytes;
                          s = s\<lparr>outfile := Some []\<rparr>
                      in case checksum_buffer header_prefix 0 of
                           Inl e \<Rightarrow> (Inl e, s)
                         | Inr c \<Rightarrow>
                             let w = (if \<not> checksum_only then header_prefix else []) in
                             (case build_loop checksum_only file p w c of
                                (Some e, p', w', c') \<Rightarrow>
                                  (Inl e, s\<lparr>cursor := p', outfile := Some w', acc := Some c'\<rparr>)
                              | (None, p', w', c') \<Rightarrow>
                                  (case pack_H ((0x10000 - c') AND 0xFFFF) of
                                     Inl e \<Rightarrow>
                                       (Inl e,
                                        s\<lparr>cursor := p', outfile := Some w', acc := Some c'\<rparr>)
                                   | Inr word \<Rightarrow>
                                       (Inr [],
                                        s\<lparr>cursor := p', outfile := Some (w' @ word),
                                          acc := Some c'\<rparr>))))"

definition cmd_sum :: "byte list \<Rightarrow> outcome \<times> st" where
  "cmd_sum file = cmd_build True file"

subsection \<open>cmd\_extract\<close>

text \<open>
  The loop of \<open>cmd_extract\<close>: as in \<open>cmd_check\<close>, and each word read is also written
  to the output unless the cursor then stands at the end of the file.
\<close>

fun extract_loop ::
  "byte list \<Rightarrow> nat \<Rightarrow> nat \<Rightarrow> byte list \<Rightarrow> int \<Rightarrow> error option \<times> nat \<times> byte list \<times> int" where
  "extract_loop file 0 p w c = (None, p, w, c)"
| "extract_loop file (Suc n) p w c =
     (let b = fread file p 2; p' = p + length b in
      case unpack_H b of
        Inl e \<Rightarrow> (Some e, p', w, c)
      | Inr word \<Rightarrow>
          extract_loop file n p' (if p' \<noteq> length file then w @ b else w)
            ((c + word) AND 0xFFFF))"

definition cmd_extract :: "byte list \<Rightarrow> outcome \<times> st" where
  "cmd_extract file =
     (let file_size = int (length file);
          b = fread file 0 calcsize_IIIIIH;
          s = \<lparr>cursor = length b, outfile = Some [], acc = None\<rparr>
      in case unpack_IIIIIH b of
           Inl e \<Rightarrow> (Inl e, s)
         | Inr (magic, inode_count, modification_time, block_size,
                fragment_entry_count, compression_id) \<Rightarrow>
             let s = s\<lparr>outfile := Some b\<rparr> in
             if magic \<noteq> SQUASHFS_MAGIC_BE
             then (Inl (RuntimeError ''Doesn't appear to be a SquashFS.''), s)
             else
               let rtl_size = modification_time + SIZE_OF_SQFS_SUPER_BLOCK + 2 in
               if rtl_size > file_size
               then (Inl (RuntimeError ''Not an RTL Squash filesystem''), s)
               else
                 (case extract_loop file (nat (rtl_size div 2)) 0 b 0 of
                    (Some e, p, w, c) \<Rightarrow>
                      (Inl e, s\<lparr>cursor := p, outfile := Some w, acc := Some c\<rparr>)
                  | (None, p, w, c) \<Rightarrow>
                      (Inr [if c \<noteq> 0 then ''Checksum failed'' else ''Checksum passed''],
                       s\<lparr>cursor := p, outfile := Some w, acc := Some c\<rparr>)))"

subsection \<open>The word sum of the specification\<close>

text \<open>
  Following the specification's words, not the code: the big-endian 16-bit words of a byte
  range are its consecutive pairs of bytes, a last single byte being padded with a zero
  low byte, and the checksum adds them to an accumulator that is reduced modulo 65536
  after every addition.
\<close>

fun words :: "byte list \<Rightarrow> int list" where
  "words (x # y # b) = be_int [x, y] # words b"
| "words [x] = [be_int [x, 0]]"
| "words [] = []"

definition sum16 :: "int \<Rightarrow> byte list \<Rightarrow> int" where
  "sum16 c b = foldl (\<lambda>a w. (a + w) mod 65536) c (words b)"

text \<open>
  The header fields the specification names: the magic number at offset 0, the size field
  at offset 8, and the protected size derived from it.
\<close>

definition magic_of :: "byte list \<Rightarrow> int" where
  "magic_of file = be_int (take 4 file)"

definition size_field :: "byte list \<Rightarrow> int" where
  "size_field file = be_int (take 4 (drop 8 file))"

definition protected_size :: "byte list \<Rightarrow> int" where
  "protected_size file = size_field file + 640 + 2"

subsection \<open>Sample files\<close>

text \<open>
  \<open>sample_rootfs\<close> is a vendor image of 642 bytes: the magic, a size field of 0, zeros,
  and the checksum word \<open>0x261A\<close> that makes the words sum to 0. \<open>short_header\<close> is a
  file of 12 bytes that ends right after its size field.
\<close>

definition sample_rootfs :: "byte list" where
  "sample_rootfs =
     [0x68, 0x73, 0x71, 0x73, 0, 0, 0, 0, 0, 0, 0, 0, 0, 0, 0, 0, 0, 0, 0, 0, 0, 0]
     @ replicate 618 0 @ [0x26, 0x1A]"

definition short_header :: "byte list" where
  "short_header = [0x68, 0x73, 0x71, 0x73, 0, 0, 0, 0, 0, 0, 0, 0]"

text \<open>
  \<open>odd_rootfs\<close> is a file of 643 bytes with the size field 1, so with the odd protected
  size 643: the words of its first 642 bytes sum to 0, and its last byte is \<open>7F\<close>.
\<close>

definition odd_rootfs :: "byte list" where
  "odd_rootfs =
     [0x68, 0x73, 0x71, 0x73, 0, 0, 0, 0, 0, 0, 0, 1, 0, 0, 0, 0, 0, 0, 0, 0, 0, 0]
     @ replicate 618 0 @ [0x26, 0x19, 0x7F]"

text \<open>
  \<open>bare_header\<close> is a header of 22 bytes with the magic and nothing after it;
  \<open>zeros22\<close> and \<open>zeros4\<close> are files of zero bytes, so without the magic.
\<close>

definition bare_header :: "byte list" where
  "bare_header =
     [0x68, 0x73, 0x71, 0x73, 0, 0, 0, 0, 0, 0, 0, 0, 0, 0, 0, 0, 0, 0, 0, 0, 0, 0]"

definition zeros4 :: "byte list" where
  "zeros4 = [0, 0, 0, 0]"

definition zeros22 :: "byte list" where
  "zeros22 = [0, 0, 0, 0, 0, 0, 0, 0, 0, 0, 0, 0, 0, 0, 0, 0, 0, 0, 0, 0, 0, 0]"

subsection \<open>What cmd\_build writes, in closed form\<close>

text \<open>
  \<open>pad_even\<close> appends one zero byte to a byte sequence of odd length. \<open>rounded_size\<close> is
  the file size minus 640, rounded up to even. \<open>build_payload\<close> is the first eight bytes
  of the input, the four big-endian bytes of \<open>rounded_size\<close>, and the input from offset
  12 on, padded to even length; \<open>build_checksum_word\<close> is the two big-endian bytes of the
  complement of its word sum. The lemma \<open>cmd_build_accepted\<close> below proves that this is
  what the code writes.
\<close>

definition pad_even :: "byte list \<Rightarrow> byte list" where
  "pad_even b = (if length b mod 2 \<noteq> 0 then b @ [0] else b)"

definition be_bytes2 :: "int \<Rightarrow> byte list" where
  "be_bytes2 v = [word_of_int (v div 256), word_of_int v]"

definition be_bytes4 :: "int \<Rightarrow> byte list" where
  "be_bytes4 v = [word_of_int (v div 16777216), word_of_int (v div 65536),
                  word_of_int (v div 256), word_of_int v]"

definition rounded_size :: "byte list \<Rightarrow> int" where
  "rounded_size file = 2 * ((int (length file) - 640 + 1) div 2)"

definition build_payload :: "byte list \<Rightarrow> byte list" where
  "build_payload file =
     take 8 file @ be_bytes4 (rounded_size file) @ pad_even (drop 12 file)"

definition build_checksum_word :: "byte list \<Rightarrow> byte list" where
  "build_checksum_word file = be_bytes2 ((0x10000 - sum16 0 (build_payload file)) mod 65536)"

text \<open>
  \<open>sample_squashfs\<close> is an input for \<open>cmd_build\<close>: 639 bytes, an odd length, with
  the magic and the bytes \<open>12 34 56 78\<close> where the modification time stands.
\<close>

definition sample_squashfs :: "byte list" where
  "sample_squashfs =
     [0x68, 0x73, 0x71, 0x73, 0, 0, 0, 1, 0x12, 0x34, 0x56, 0x78] @ replicate 627 0"

section \<open>The checksum engine\<close>

lemma and_ffff: "(x::int) AND 0xFFFF = x mod 65536"
proof -
  have "x AND mask 16 = x mod 2 ^ 16"
    by (simp add: take_bit_eq_mod flip: take_bit_eq_mask)
  moreover have "(mask 16 :: int) = 0xFFFF"
    by (simp add: mask_eq_exp_minus_1)
  ultimately show ?thesis by simp
qed

lemma sum16_Nil [simp]: "sum16 c [] = c"
  by (simp add: sum16_def)

lemma sum16_Cons2 [simp]: "sum16 c (x # y # b) = sum16 ((c + be_int [x, y]) mod 65536) b"
  by (simp add: sum16_def)

lemma drop_two: "i + 2 \<le> length b \<Longrightarrow> drop i b = b ! i # b ! (i + 1) # drop (i + 2) b"
proof -
  assume h: "i + 2 \<le> length b"
  then have "drop i b = b ! i # drop (Suc i) b"
    by (simp add: Cons_nth_drop_Suc)
  moreover from h have "drop (Suc i) b = b ! Suc i # drop (Suc (Suc i)) b"
    by (simp add: Cons_nth_drop_Suc)
  ultimately show ?thesis by simp
qed

lemma checksum_from_sum16:
  "i \<le> length b \<Longrightarrow> even (length b - i) \<Longrightarrow> checksum_from b i c = Inr (sum16 c (drop i b))"
proof (induction b i c rule: checksum_from.induct)
  case (1 b i c)
  show ?case
  proof (cases "i < length b")
    case False
    with "1.prems" show ?thesis by (simp add: checksum_from.simps)
  next
    case True
    with "1.prems" have le: "i + 2 \<le> length b"
      by (cases "length b - i = 1") auto
    then have d: "drop i b = b ! i # b ! (i + 1) # drop (i + 2) b"
      by (rule drop_two)
    have u: "unpack_H (take 2 (drop i b)) = Inr (be_int [b ! i, b ! (i + 1)])"
      by (simp add: d unpack_H_def)
    from le "1.prems" have ev: "even (length b - (i + 2))" by simp
    have "checksum_from b i c
        = checksum_from b (i + 2) ((c + be_int [b ! i, b ! (i + 1)]) AND 0xFFFF)"
      using True u by (subst checksum_from.simps) simp
    also have "\<dots> = Inr (sum16 ((c + be_int [b ! i, b ! (i + 1)]) AND 0xFFFF) (drop (i + 2) b))"
      using "1.IH" [OF True u le ev] .
    also have "sum16 ((c + be_int [b ! i, b ! (i + 1)]) AND 0xFFFF) (drop (i + 2) b)
        = sum16 c (drop i b)"
      by (subst d) (simp add: and_ffff)
    finally show ?thesis .
  qed
qed

lemma checksum_buffer_sum16:
  "even (length b) \<Longrightarrow> checksum_buffer b c = Inr (sum16 c b)"
  using checksum_from_sum16 [of 0 b c] by (simp add: checksum_buffer_def)

lemma check_loop_sum16:
  "p + 2 * n \<le> length file \<Longrightarrow>
   check_loop file n p c = (None, p + 2 * n, sum16 c (take (2 * n) (drop p file)))"
proof (induction n arbitrary: p c)
  case 0
  then show ?case by simp
next
  case (Suc n)
  then have le: "p + 2 \<le> length file" by simp
  then have d: "drop p file = file ! p # file ! (p + 1) # drop (p + 2) file"
    by (rule drop_two)
  have r: "fread file p 2 = [file ! p, file ! (p + 1)]"
    by (simp add: fread_def d)
  from Suc.prems have "p + 2 + 2 * n \<le> length file" by simp
  from Suc.IH [OF this] show ?case
    by (simp add: r unpack_H_def and_ffff d)
qed

lemma words_append: "even (length a) \<Longrightarrow> words (a @ b) = words a @ words b"
  by (induction a rule: words.induct) auto

lemma sum16_append: "even (length a) \<Longrightarrow> sum16 c (a @ b) = sum16 (sum16 c a) b"
  by (simp add: sum16_def words_append)

lemma foldl_mod_sum:
  "foldl (\<lambda>a w. (a + w) mod 65536) (c mod 65536) ws = (c + sum_list ws) mod (65536::int)"
proof (induction ws arbitrary: c)
  case Nil
  then show ?case by simp
next
  case (Cons w ws)
  have "(c mod 65536 + w) mod 65536 = (c + w) mod (65536::int)"
    by (simp add: mod_add_left_eq)
  with Cons.IH [of "c + w"] show ?case by (simp add: add.assoc)
qed

lemma sum16_sum_list:
  "0 \<le> c \<Longrightarrow> c < 65536 \<Longrightarrow> sum16 c b = (c + sum_list (words b)) mod 65536"
  using foldl_mod_sum [of c "words b"] by (simp add: sum16_def)

lemma sum16_range: "0 \<le> c \<Longrightarrow> c < 65536 \<Longrightarrow> 0 \<le> sum16 c b \<and> sum16 c b < 65536"
  by (simp add: sum16_sum_list)

lemma uint_byte_of_int: "uint (word_of_int v :: byte) = v mod 256"
  by (simp add: uint_word_of_int)

lemma be_int_two: "be_int [x, y] = uint x * 256 + uint y"
  by (simp add: be_int_def)

lemma be_int_four: "be_int [a, b, c, d] = ((uint a * 256 + uint b) * 256 + uint c) * 256 + uint d"
  by (simp add: be_int_def)

lemma be_int_pack_H:
  assumes "0 \<le> v" "v \<le> 0xFFFF"
  shows "be_int [word_of_int (v div 256), word_of_int v] = v"
proof -
  have "v div 256 < 256" using assms by simp
  moreover have "0 \<le> v div 256" using assms by simp
  ultimately have a: "v div 256 mod 256 = v div 256" by simp
  show ?thesis
    unfolding be_int_two uint_byte_of_int a by simp
qed

lemma be_int_pack_I:
  assumes "0 \<le> v" "v \<le> 0xFFFFFFFF"
  shows "be_int [word_of_int (v div 16777216), word_of_int (v div 65536),
                 word_of_int (v div 256), word_of_int v] = v"
proof -
  have "v div 16777216 < 256" using assms by simp
  moreover have "0 \<le> v div 16777216" using assms by simp
  ultimately have a: "v div 16777216 mod 256 = v div 16777216" by simp
  have "v div 16777216 = v div 65536 div 256"
    using zdiv_zmult2_eq [of 256 v 65536] by simp
  then have b: "v div 16777216 * 256 + v div 65536 mod 256 = v div 65536"
    by simp
  have "v div 65536 = v div 256 div 256"
    using zdiv_zmult2_eq [of 256 v 256] by simp
  then have c: "v div 65536 * 256 + v div 256 mod 256 = v div 256"
    by simp
  show ?thesis
    unfolding be_int_four uint_byte_of_int a b c by simp
qed

section \<open>Headers\<close>

lemma be_int_nonneg: "0 \<le> be_int bs"
proof -
  have "0 \<le> a \<Longrightarrow> 0 \<le> foldl (\<lambda>a b. a * 256 + uint b) a bs" for a :: int
    by (induction bs arbitrary: a) simp_all
  then show ?thesis by (simp add: be_int_def)
qed

lemma protected_size_ge: "642 \<le> protected_size file"
  using be_int_nonneg [of "take 4 (drop 8 file)"] by (simp add: protected_size_def size_field_def)

lemma unpack_header:
  "22 \<le> length file \<Longrightarrow>
   unpack_IIIIIH (fread file 0 calcsize_IIIIIH) =
     Inr (magic_of file, be_int (take 4 (drop 4 file)), size_field file,
          be_int (take 4 (drop 12 file)), be_int (take 4 (drop 16 file)),
          be_int (take 2 (drop 20 file)))"
  by (simp add: unpack_IIIIIH_def fread_def calcsize_IIIIIH_def magic_of_def size_field_def
      drop_take min_def)

lemma unpack_header_short:
  "length file < 22 \<Longrightarrow> unpack_IIIIIH (fread file 0 calcsize_IIIIIH) = Inl StructError"
  by (simp add: unpack_IIIIIH_def fread_def calcsize_IIIIIH_def)

lemma cmd_check_long:
  "22 \<le> length file \<Longrightarrow>
   cmd_check file =
     (if magic_of file \<noteq> SQUASHFS_MAGIC_BE
      then (Inl (RuntimeError ''Doesn't appear to be a SquashFS.''),
            \<lparr>cursor = 22, outfile = None, acc = None\<rparr>)
      else if protected_size file > int (length file)
      then (Inl (RuntimeError ''Not an RTL Squash filesystem''),
            \<lparr>cursor = 22, outfile = None, acc = None\<rparr>)
      else
        (case check_loop file (nat (protected_size file div 2)) 0 0 of
           (Some e, p, c) \<Rightarrow> (Inl e, \<lparr>cursor = p, outfile = None, acc = Some c\<rparr>)
         | (None, p, c) \<Rightarrow>
             (Inr [if c \<noteq> 0 then ''Checksum failed'' else ''Checksum passed''],
              \<lparr>cursor = p, outfile = None, acc = Some c\<rparr>)))"
  by (simp add: cmd_check_def unpack_header Let_def protected_size_def
      SIZE_OF_SQFS_SUPER_BLOCK_def)
    (simp add: fread_def calcsize_IIIIIH_def split: prod.splits option.splits)

lemma cmd_extract_long:
  "22 \<le> length file \<Longrightarrow>
   cmd_extract file =
     (if magic_of file \<noteq> SQUASHFS_MAGIC_BE
      then (Inl (RuntimeError ''Doesn't appear to be a SquashFS.''),
            \<lparr>cursor = 22, outfile = Some (take 22 file), acc = None\<rparr>)
      else if protected_size file > int (length file)
      then (Inl (RuntimeError ''Not an RTL Squash filesystem''),
            \<lparr>cursor = 22, outfile = Some (take 22 file), acc = None\<rparr>)
      else
        (case extract_loop file (nat (protected_size file div 2)) 0 (take 22 file) 0 of
           (Some e, p, w, c) \<Rightarrow> (Inl e, \<lparr>cursor = p, outfile = Some w, acc = Some c\<rparr>)
         | (None, p, w, c) \<Rightarrow>
             (Inr [if c \<noteq> 0 then ''Checksum failed'' else ''Checksum passed''],
              \<lparr>cursor = p, outfile = Some w, acc = Some c\<rparr>)))"
  by (simp add: cmd_extract_def unpack_header Let_def protected_size_def
      SIZE_OF_SQFS_SUPER_BLOCK_def)
    (simp add: fread_def calcsize_IIIIIH_def split: prod.splits option.splits)

lemma cmd_check_short:
  "length file < 22 \<Longrightarrow>
   cmd_check file = (Inl StructError, \<lparr>cursor = length file, outfile = None, acc = None\<rparr>)"
  by (simp add: cmd_check_def unpack_header_short Let_def)
    (simp add: fread_def calcsize_IIIIIH_def)

lemma cmd_extract_short:
  "length file < 22 \<Longrightarrow>
   cmd_extract file = (Inl StructError, \<lparr>cursor = length file, outfile = Some [], acc = None\<rparr>)"
  by (simp add: cmd_extract_def unpack_header_short Let_def)
    (simp add: fread_def calcsize_IIIIIH_def)

lemma sample_magic: "magic_of sample_rootfs = SQUASHFS_MAGIC_BE"
  by (simp add: magic_of_def sample_rootfs_def be_int_def SQUASHFS_MAGIC_BE_def)

lemma sample_size: "protected_size sample_rootfs = 642"
  by (simp add: protected_size_def size_field_def sample_rootfs_def be_int_def)

lemma sample_length: "length sample_rootfs = 642"
  by (simp add: sample_rootfs_def)

section \<open>The loop of cmd\_extract\<close>

lemma extract_loop_run:
  "p + 2 * n \<le> length file \<Longrightarrow>
   extract_loop file n p w c =
     (None, p + 2 * n,
      w @ take (if p + 2 * n = length file then 2 * n - 2 else 2 * n) (drop p file),
      sum16 c (take (2 * n) (drop p file)))"
proof (induction n arbitrary: p w c)
  case 0
  then show ?case by simp
next
  case (Suc n)
  then have le: "p + 2 \<le> length file" by simp
  then have d: "drop p file = file ! p # file ! (p + 1) # drop (p + 2) file"
    by (rule drop_two)
  have r: "fread file p 2 = [file ! p, file ! (p + 1)]"
    by (simp add: fread_def d)
  from Suc.prems have le': "p + 2 + 2 * n \<le> length file" by simp
  note IH = Suc.IH [OF le']
  have step: "extract_loop file (Suc n) p w c =
      extract_loop file n (p + 2)
        (if p + 2 \<noteq> length file then w @ [file ! p, file ! (p + 1)] else w)
        ((c + be_int [file ! p, file ! (p + 1)]) AND 0xFFFF)"
    by (simp add: r unpack_H_def Let_def)
  have s: "sum16 ((c + be_int [file ! p, file ! (p + 1)]) AND 0xFFFF)
             (take (2 * n) (drop (p + 2) file))
         = sum16 c (take (2 * Suc n) (drop p file))"
    by (subst d) (simp add: and_ffff)
  have w: "(if p + 2 \<noteq> length file then w @ [file ! p, file ! (p + 1)] else w)
             @ take (if p + 2 + 2 * n = length file then 2 * n - 2 else 2 * n)
                 (drop (p + 2) file)
         = w @ take (if p + 2 * Suc n = length file then 2 * Suc n - 2 else 2 * Suc n)
                 (drop p file)"
  proof (cases "p + 2 = length file")
    case True
    with le' have "n = 0" by simp
    with True show ?thesis by simp
  next
    case False
    show ?thesis
    proof (cases "p + 2 + 2 * n = length file")
      case True
      with False obtain m where m: "n = Suc m" by (cases n) auto
      from True False show ?thesis
        by (subst d) (simp add: m)
    next
      case False
      with \<open>p + 2 \<noteq> length file\<close> show ?thesis
        by (subst d) simp
    qed
  qed
  show ?case
    unfolding step IH s w by simp
qed

lemma extract_accepted:
  assumes "magic_of file = SQUASHFS_MAGIC_BE"
    and "protected_size file \<le> int (length file)"
  shows "\<exists>line s. cmd_extract file = (Inr [line], s)"
proof -
  define n where "n = nat (protected_size file div 2)"
  have ge: "642 \<le> protected_size file" by (rule protected_size_ge)
  with assms(2) have len: "22 \<le> length file" by simp
  have "0 + 2 * n \<le> length file"
    using assms(2) ge unfolding n_def by linarith
  note run = extract_loop_run [OF this]
  show ?thesis
    unfolding cmd_extract_long [OF len] n_def [symmetric] run using assms by simp
qed

lemma extract_output:
  assumes "magic_of file = SQUASHFS_MAGIC_BE"
    and "protected_size file = int (length file)"
    and "even (length file)"
  shows "outfile (snd (cmd_extract file)) = Some (take 22 file @ take (length file - 2) file)"
proof -
  define n where "n = nat (protected_size file div 2)"
  have ge: "642 \<le> protected_size file" by (rule protected_size_ge)
  with assms(2) have len: "22 \<le> length file" by simp
  have n2: "2 * n = length file"
    using assms(2,3) unfolding n_def by (simp add: nat_div_distrib)
  then have "0 + 2 * n \<le> length file" by simp
  note run = extract_loop_run [OF this]
  show ?thesis
    unfolding cmd_extract_long [OF len] n_def [symmetric] run using assms n2 by simp
qed

section \<open>Facts about the sample files\<close>

lemma short_header_magic: "magic_of short_header = SQUASHFS_MAGIC_BE"
  by (simp add: magic_of_def short_header_def be_int_def SQUASHFS_MAGIC_BE_def)

lemma short_header_size: "size_field short_header = 0"
  by (simp add: size_field_def short_header_def be_int_def)

lemma zeros22_magic: "magic_of zeros22 \<noteq> SQUASHFS_MAGIC_BE"
  by (simp add: magic_of_def zeros22_def be_int_def SQUASHFS_MAGIC_BE_def)

lemma sum16_zeros:
  "0 \<le> c \<Longrightarrow> c < 65536 \<Longrightarrow> sum16 c (replicate (2 * n) 0 @ b) = sum16 c b"
  by (induction n) (simp_all add: be_int_def)

lemma odd_rootfs_magic: "magic_of odd_rootfs = SQUASHFS_MAGIC_BE"
  by (simp add: magic_of_def odd_rootfs_def be_int_def SQUASHFS_MAGIC_BE_def)

lemma odd_rootfs_size: "protected_size odd_rootfs = 643"
  by (simp add: protected_size_def size_field_def odd_rootfs_def be_int_def)

lemma odd_rootfs_length: "length odd_rootfs = 643"
  by (simp add: odd_rootfs_def)

lemma odd_rootfs_sum: "sum16 0 (take 643 odd_rootfs) = 0x7F00"
proof -
  have "sum16 0 odd_rootfs = sum16 55783 (replicate (2 * 309) 0 @ [0x26, 0x19, 0x7F])"
    by (simp add: odd_rootfs_def be_int_def)
  also have "\<dots> = sum16 55783 [0x26, 0x19, 0x7F]"
    by (rule sum16_zeros) simp_all
  also have "\<dots> = 0x7F00"
    by (simp add: sum16_def be_int_def)
  finally show ?thesis
    by (simp add: odd_rootfs_length)
qed

lemma odd_rootfs_even_sum: "sum16 0 (take 642 odd_rootfs) = 0"
proof -
  have "take 642 odd_rootfs =
      [0x68, 0x73, 0x71, 0x73, 0, 0, 0, 0, 0, 0, 0, 1, 0, 0, 0, 0, 0, 0, 0, 0, 0, 0]
      @ replicate (2 * 309) 0 @ [0x26, 0x19]"
    by (simp add: odd_rootfs_def)
  then have "sum16 0 (take 642 odd_rootfs) = sum16 55783 (replicate (2 * 309) 0 @ [0x26, 0x19])"
    by (simp add: be_int_def)
  also have "\<dots> = sum16 55783 [0x26, 0x19]"
    by (rule sum16_zeros) simp_all
  also have "\<dots> = 0"
    by (simp add: be_int_def)
  finally show ?thesis .
qed

section \<open>cmd\_check on accepted inputs\<close>

lemma cmd_check_accepted:
  assumes "magic_of file = SQUASHFS_MAGIC_BE"
    and "protected_size file \<le> int (length file)"
  shows "cmd_check file =
    (Inr [if sum16 0 (take (2 * (nat (protected_size file) div 2)) file) \<noteq> 0
          then ''Checksum failed'' else ''Checksum passed''],
     \<lparr>cursor = 2 * (nat (protected_size file) div 2), outfile = None,
      acc = Some (sum16 0 (take (2 * (nat (protected_size file) div 2)) file))\<rparr>)"
proof -
  define n where "n = nat (protected_size file div 2)"
  have ge: "642 \<le> protected_size file" by (rule protected_size_ge)
  with assms(2) have len: "22 \<le> length file" by simp
  have n2: "n = nat (protected_size file) div 2"
    using ge by (simp add: n_def nat_div_distrib)
  have "0 + 2 * n \<le> length file"
    using assms(2) ge unfolding n2 by linarith
  from check_loop_sum16 [OF this]
  have loop: "check_loop file n 0 0 = (None, 2 * n, sum16 0 (take (2 * n) file))"
    by simp
  have "cmd_check file =
      (Inr [if sum16 0 (take (2 * n) file) \<noteq> 0 then ''Checksum failed'' else ''Checksum passed''],
       \<lparr>cursor = 2 * n, outfile = None, acc = Some (sum16 0 (take (2 * n) file))\<rparr>)"
    unfolding cmd_check_long [OF len] n_def [symmetric] loop using assms by simp
  then show ?thesis
    unfolding n2 .
qed

section \<open>The header of cmd\_build\<close>

lemma unpack_prefix:
  "8 \<le> length file \<Longrightarrow>
   unpack_II (fread file 0 8) = Inr (magic_of file, be_int (take 4 (drop 4 file)))"
  by (simp add: unpack_II_def fread_def magic_of_def drop_take min_def)

lemma unpack_prefix_short:
  "length file < 8 \<Longrightarrow> unpack_II (fread file 0 8) = Inl StructError"
  by (simp add: unpack_II_def fread_def)

lemma cmd_build_bad_magic:
  "8 \<le> length file \<Longrightarrow> magic_of file \<noteq> SQUASHFS_MAGIC_BE \<Longrightarrow>
   cmd_build checksum_only file =
     (Inl (RuntimeError ''Doesn't appear to be a SquashFS.''),
      \<lparr>cursor = 8, outfile = None, acc = None\<rparr>)"
  by (simp add: cmd_build_def unpack_prefix Let_def) (simp add: fread_def)

lemma cmd_build_short:
  "length file < 8 \<Longrightarrow>
   cmd_build checksum_only file =
     (Inl StructError, \<lparr>cursor = length file, outfile = None, acc = None\<rparr>)"
  by (simp add: cmd_build_def unpack_prefix_short Let_def) (simp add: fread_def)

section \<open>The loop of cmd\_build\<close>

lemma pad_even_alt: "pad_even b = (if even (length b) then b else b @ [0])"
  by (simp add: pad_even_def even_iff_mod_2_eq_zero)

lemma pad_even_Nil [simp]: "pad_even [] = []"
  by (simp add: pad_even_alt)

lemma even_length_pad_even: "even (length (pad_even b))"
  by (simp add: pad_even_alt)

lemma pad_even_append: "even (length a) \<Longrightarrow> pad_even (a @ r) = a @ pad_even r"
  by (simp add: pad_even_alt)

lemma length_pad_even: "length (pad_even b) = 2 * ((length b + 1) div 2)"
  by (auto simp add: pad_even_alt elim: evenE oddE)

lemma chunk_split:
  "pad_even xs = pad_even (take 1024 xs) @ pad_even (drop 1024 xs)"
proof (cases "length xs \<le> 1024")
  case True
  then show ?thesis by simp
next
  case False
  then have "even (length (take 1024 xs))" by simp
  from pad_even_append [OF this, of "drop 1024 xs"] this show ?thesis
    by (simp add: pad_even_alt)
qed

lemma drop_chunk:
  "drop (p + length (take 1024 (drop p file))) file = drop 1024 (drop p file)"
proof (cases "length (drop p file) \<le> 1024")
  case True
  then show ?thesis by simp
next
  case False
  then have "length (take 1024 (drop p file)) = 1024" by simp
  then show ?thesis by (simp add: add.commute)
qed

lemma build_loop_run:
  "build_loop checksum_only file p w c =
     (None, max p (length file),
      (if checksum_only then w else w @ pad_even (drop p file)),
      sum16 c (pad_even (drop p file)))"
proof (induction checksum_only "file" p w c rule: build_loop.induct)
  case (1 checksum_only fl p w c)
  define b where "b = fread fl p 1024"
  show ?case
  proof (cases "b = []")
    case True
    then have "drop p fl = []"
      by (simp add: b_def fread_def)
    then show ?thesis
      using True by (subst build_loop.simps) (simp add: b_def [symmetric] max_def)
  next
    case False
    define p' where "p' = p + length b"
    define b' where "b' = (if length b mod 2 \<noteq> 0 then b @ [0] else b)"
    have b'p: "b' = pad_even b" by (simp add: b'_def pad_even_def)
    have cb: "checksum_buffer b' c = Inr (sum16 c b')"
      by (rule checksum_buffer_sum16) (simp add: b'p even_length_pad_even)
    have rest: "drop p' fl = drop 1024 (drop p fl)"
      unfolding p'_def b_def fread_def by (rule drop_chunk)
    have split: "pad_even (drop p fl) = b' @ pad_even (drop p' fl)"
      unfolding rest b'p b_def fread_def by (rule chunk_split)
    from False have "p < length fl"
      by (simp add: b_def fread_def)
    then have mx: "max p' (length fl) = max p (length fl)"
      by (simp add: p'_def b_def fread_def)
    have IH: "build_loop checksum_only fl p' (if \<not> checksum_only then w @ b' else w)
                (sum16 c b') =
       (None, max p' (length fl),
        (if checksum_only then (if \<not> checksum_only then w @ b' else w)
         else (if \<not> checksum_only then w @ b' else w) @ pad_even (drop p' fl)),
        sum16 (sum16 c b') (pad_even (drop p' fl)))"
      using False cb
      by (intro "1.IH" [of b p' b' "sum16 c b'"]) (simp_all add: b_def p'_def b'_def)
    have s: "sum16 (sum16 c b') (pad_even (drop p' fl)) = sum16 c (pad_even (drop p fl))"
      unfolding split by (simp add: sum16_append b'p even_length_pad_even)
    have ne: "fread fl p 1024 \<noteq> []" using False by (simp add: b_def)
    have step: "build_loop checksum_only fl p w c =
        (case checksum_buffer b' c of
           Inl e \<Rightarrow> (Some e, p', w, c)
         | Inr c' \<Rightarrow>
             build_loop checksum_only fl p' (if \<not> checksum_only then w @ b' else w) c')"
      unfolding b'_def p'_def b_def
      by (subst build_loop.simps) (simp only: Let_def ne if_False)
    have "build_loop checksum_only fl p w c =
        build_loop checksum_only fl p' (if \<not> checksum_only then w @ b' else w) (sum16 c b')"
      unfolding step cb by (simp only: sum.case)
    then show ?thesis
      unfolding IH s mx by (simp add: split)
  qed
qed

section \<open>cmd\_build on accepted and on rejected inputs\<close>

lemma round_up_even: "(if x mod 2 \<noteq> 0 then x + 1 else x) = 2 * ((x + 1) div 2)" for x :: int
  by presburger

lemma squashfs_size_rounded:
  "(if (int (length file) - SIZE_OF_SQFS_SUPER_BLOCK) mod 2 \<noteq> 0
    then int (length file) - SIZE_OF_SQFS_SUPER_BLOCK + 1
    else int (length file) - SIZE_OF_SQFS_SUPER_BLOCK) = rounded_size file"
  unfolding SIZE_OF_SQFS_SUPER_BLOCK_def rounded_size_def round_up_even by simp

lemma rounded_size_bounds:
  "int (length file) - 640 \<le> rounded_size file \<and> rounded_size file \<le> int (length file) - 639"
proof -
  define x where "x = int (length file) - 639"
  have "x div 2 * 2 + x mod 2 = x" by simp
  moreover have "0 \<le> x mod 2" and "x mod 2 < 2" by simp_all
  ultimately have "x - 1 \<le> 2 * (x div 2) \<and> 2 * (x div 2) \<le> x" by linarith
  then show ?thesis by (simp add: rounded_size_def x_def)
qed

lemma even_rounded_size: "even (rounded_size file)"
  by (simp add: rounded_size_def)

lemma rounded_size_range:
  "639 \<le> length file \<Longrightarrow> length file \<le> 4294967934 \<Longrightarrow>
   0 \<le> rounded_size file \<and> rounded_size file \<le> 0xFFFFFFFF"
  using rounded_size_bounds [of "file"] even_rounded_size [of "file"] by presburger

lemma pack_I_be_bytes4:
  "pack_I v = (if 0 \<le> v \<and> v \<le> 0xFFFFFFFF then Inr (be_bytes4 v) else Inl StructError)"
  by (simp add: pack_I_def be_bytes4_def)

lemma pack_H_be_bytes2:
  "pack_H v = (if 0 \<le> v \<and> v \<le> 0xFFFF then Inr (be_bytes2 v) else Inl StructError)"
  by (simp add: pack_H_def be_bytes2_def)

lemma length_be_bytes4 [simp]: "length (be_bytes4 v) = 4"
  by (simp add: be_bytes4_def)

lemma length_be_bytes2 [simp]: "length (be_bytes2 v) = 2"
  by (simp add: be_bytes2_def)

lemma rounded_size_out_of_range:
  "length file < 639 \<or> 4294967934 < length file \<Longrightarrow>
   \<not> (0 \<le> rounded_size file \<and> rounded_size file \<le> 0xFFFFFFFF)"
  using rounded_size_bounds [of "file"] even_rounded_size [of "file"] by presburger

lemma build_header_sum:
  "8 \<le> length file \<Longrightarrow>
   checksum_buffer (take 8 file @ be_bytes4 v) 0 = Inr (sum16 0 (take 8 file @ be_bytes4 v))"
  by (rule checksum_buffer_sum16) simp

lemma complement_range:
  "0 \<le> (0x10000 - c) AND (0xFFFF::int) \<and> (0x10000 - c) AND (0xFFFF::int) \<le> 0xFFFF"
  by (simp add: and_ffff)

lemma cmd_build_accepted:
  assumes m: "magic_of file = SQUASHFS_MAGIC_BE"
    and lo: "639 \<le> length file"
    and hi: "length file \<le> 4294967934"
  shows "cmd_build checksum_only file =
    (Inr [],
     \<lparr>cursor = length file,
      outfile = Some ((if checksum_only then [] else build_payload file)
                      @ build_checksum_word file),
      acc = Some (sum16 0 (build_payload file))\<rparr>)"
proof -
  have l8: "8 \<le> length file" using lo by simp
  have h: "fread file 0 8 = take 8 file" by (simp add: fread_def)
  have l: "min (length file) 8 = 8" using l8 by simp
  have up: "unpack_II (take 8 file) = Inr (magic_of file, be_int (take 4 (drop 4 file)))"
    using unpack_prefix [OF l8] by (simp add: h)
  have r4: "length (fread file 8 4) = 4" using lo by (simp add: fread_def)
  have pk: "pack_I (rounded_size file) = Inr (be_bytes4 (rounded_size file))"
    using rounded_size_range [OF lo hi] by (simp add: pack_I_be_bytes4)
  have mx: "max 12 (length file) = length file" using lo by simp
  have s: "sum16 (sum16 0 (take 8 file @ be_bytes4 (rounded_size file)))
             (pad_even (drop 12 file)) = sum16 0 (build_payload file)"
    using l8 by (simp add: build_payload_def sum16_append [symmetric])
  have ph: "pack_H ((0x10000 - sum16 0 (build_payload file)) AND 0xFFFF)
            = Inr (build_checksum_word file)"
    by (simp add: pack_H_be_bytes2 build_checksum_word_def and_ffff)
  show ?thesis
    unfolding cmd_build_def squashfs_size_rounded Let_def h up
    by (simp add: m l r4 pk build_header_sum [OF l8] build_loop_run mx s ph
        build_payload_def [symmetric])
qed

lemma cmd_build_size_rejected:
  assumes m: "magic_of file = SQUASHFS_MAGIC_BE"
    and l8: "8 \<le> length file"
    and out: "length file < 639 \<or> 4294967934 < length file"
  shows "cmd_build checksum_only file =
    (Inl StructError, \<lparr>cursor = min 12 (length file), outfile = None, acc = None\<rparr>)"
proof -
  have h: "fread file 0 8 = take 8 file" by (simp add: fread_def)
  have l: "min (length file) 8 = 8" using l8 by simp
  have up: "unpack_II (take 8 file) = Inr (magic_of file, be_int (take 4 (drop 4 file)))"
    using unpack_prefix [OF l8] by (simp add: h)
  have r4: "8 + length (fread file 8 4) = min 12 (length file)"
    using l8 by (auto simp add: fread_def min_def)
  have pk: "pack_I (rounded_size file) = Inl StructError"
    using rounded_size_out_of_range [OF out] by (simp add: pack_I_be_bytes4)
  show ?thesis
    unfolding cmd_build_def squashfs_size_rounded Let_def h up
    by (simp add: m l r4 pk)
qed

section \<open>The image that cmd\_build writes\<close>

lemma sample_squashfs_magic: "magic_of sample_squashfs = SQUASHFS_MAGIC_BE"
  by (simp add: magic_of_def sample_squashfs_def be_int_def SQUASHFS_MAGIC_BE_def)

lemma sample_squashfs_length: "length sample_squashfs = 639"
  by (simp add: sample_squashfs_def)

lemma build_accepted_conditions:
  assumes "fst (cmd_build checksum_only fl) = Inr []"
  shows "magic_of fl = SQUASHFS_MAGIC_BE \<and> 639 \<le> length fl \<and> length fl \<le> 4294967934"
proof -
  have l8: "8 \<le> length fl"
  proof (rule ccontr)
    assume "\<not> 8 \<le> length fl"
    then have "length fl < 8" by simp
    from cmd_build_short [OF this, of checksum_only] assms show False by simp
  qed
  have m: "magic_of fl = SQUASHFS_MAGIC_BE"
  proof (rule ccontr)
    assume "magic_of fl \<noteq> SQUASHFS_MAGIC_BE"
    from cmd_build_bad_magic [OF l8 this, of checksum_only] assms show False by simp
  qed
  have "\<not> (length fl < 639 \<or> 4294967934 < length fl)"
  proof
    assume "length fl < 639 \<or> 4294967934 < length fl"
    from cmd_build_size_rejected [OF m l8 this, of checksum_only] assms show False by simp
  qed
  with m show ?thesis by simp
qed

lemma sample_squashfs_accepted: "fst (cmd_build checksum_only sample_squashfs) = Inr []"
proof -
  have lo: "639 \<le> length sample_squashfs" and hi: "length sample_squashfs \<le> 4294967934"
    by (simp_all add: sample_squashfs_length)
  from cmd_build_accepted [OF sample_squashfs_magic lo hi, of checksum_only]
  show ?thesis by simp
qed

lemma length_build_payload:
  "12 \<le> length fl \<Longrightarrow> length (build_payload fl) = 2 * ((length fl + 1) div 2)"
proof -
  assume l: "12 \<le> length fl"
  then obtain n where n: "length fl = n + 12"
    by (metis add.commute le_Suc_ex)
  have "length (build_payload fl) = 12 + 2 * ((n + 1) div 2)"
    using l by (simp add: build_payload_def length_pad_even n)
  also have "\<dots> = 2 * ((length fl + 1) div 2)"
    unfolding n by presburger
  finally show ?thesis .
qed

lemma even_length_build_payload: "12 \<le> length fl \<Longrightarrow> even (length (build_payload fl))"
  by (simp add: length_build_payload)

lemma build_payload_odd_even:
  "build_payload fl =
     take 8 fl @ be_bytes4 (rounded_size fl) @ drop 12 fl
     @ (if odd (length fl) \<and> 12 \<le> length fl then [0] else [])"
  by (auto simp add: build_payload_def pad_even_alt)

lemma sum16_complement:
  assumes "0 \<le> s" "s < 65536"
  shows "sum16 s (be_bytes2 ((0x10000 - s) mod 65536)) = 0"
proof -
  define k where "k = (0x10000 - s) mod 65536"
  have kr: "0 \<le> k" "k \<le> 0xFFFF" by (simp_all add: k_def)
  have "sum16 s (be_bytes2 k) = (s + k) mod 65536"
    using be_int_pack_H [OF kr] by (simp add: be_bytes2_def)
  also have "\<dots> = 0"
    unfolding k_def by (simp add: mod_add_right_eq)
  finally show ?thesis unfolding k_def .
qed

lemma sum16_build_image:
  assumes "12 \<le> length fl"
  shows "sum16 0 (build_payload fl @ build_checksum_word fl) = 0"
proof -
  have r: "0 \<le> sum16 0 (build_payload fl) \<and> sum16 0 (build_payload fl) < 65536"
    by (rule sum16_range) simp_all
  show ?thesis
    unfolding sum16_append [OF even_length_build_payload [OF assms]] build_checksum_word_def
    by (rule sum16_complement) (use r in simp_all)
qed

lemma magic_of_build_image:
  "8 \<le> length fl \<Longrightarrow> magic_of (build_payload fl @ w) = magic_of fl"
  by (simp add: magic_of_def build_payload_def)

lemma size_field_build_image:
  assumes "639 \<le> length fl" "length fl \<le> 4294967934"
  shows "size_field (build_payload fl @ w) = rounded_size fl"
proof -
  have "take 4 (drop 8 (build_payload fl @ w)) = be_bytes4 (rounded_size fl)"
    using assms(1) by (simp add: build_payload_def)
  moreover have "be_int (be_bytes4 (rounded_size fl)) = rounded_size fl"
    using rounded_size_range [OF assms] unfolding be_bytes4_def
    by (intro be_int_pack_I) simp_all
  ultimately show ?thesis by (simp add: size_field_def)
qed

lemma protected_size_build_image:
  assumes "639 \<le> length fl" "length fl \<le> 4294967934"
  shows "protected_size (build_payload fl @ build_checksum_word fl)
         = int (length (build_payload fl @ build_checksum_word fl))"
proof -
  obtain n where n: "length fl = n + 639"
    using assms(1) by (metis add.commute le_Suc_ex)
  have l12: "12 \<le> length fl" using assms(1) by simp
  have a: "rounded_size fl + 642 = int (2 * ((length fl + 1) div 2) + 2)"
    unfolding rounded_size_def n by simp presburger
  show ?thesis
    unfolding protected_size_def size_field_build_image [OF assms]
    using a by (simp add: length_build_payload [OF l12] build_checksum_word_def)
qed

lemma check_build_image:
  assumes m: "magic_of fl = SQUASHFS_MAGIC_BE"
    and lo: "639 \<le> length fl" and hi: "length fl \<le> 4294967934"
  shows "fst (cmd_check (build_payload fl @ build_checksum_word fl)) = Inr [''Checksum passed'']"
proof -
  define img where "img = build_payload fl @ build_checksum_word fl"
  have l12: "12 \<le> length fl" and l8: "8 \<le> length fl" using lo by simp_all
  have mi: "magic_of img = SQUASHFS_MAGIC_BE"
    unfolding img_def magic_of_build_image [OF l8] by (rule m)
  have ps: "protected_size img = int (length img)"
    unfolding img_def by (rule protected_size_build_image [OF lo hi])
  then have b: "protected_size img \<le> int (length img)" by simp
  have "even (length img)"
    by (simp add: img_def even_length_build_payload [OF l12] build_checksum_word_def)
  then have "2 * (nat (protected_size img) div 2) = length img"
    unfolding ps by simp
  then have s: "sum16 0 (take (2 * (nat (protected_size img) div 2)) img) = 0"
    by (simp add: img_def sum16_build_image [OF l12])
  have "fst (cmd_check img) = Inr [''Checksum passed'']"
    unfolding cmd_check_accepted [OF mi b] s by simp
  then show ?thesis
    unfolding img_def .
qed

lemma same_but_size_field:
  assumes "12 \<le> length fl" "length x = 4"
  shows "length (take 8 fl @ x @ drop 12 fl) = length fl"
    and "take 8 (take 8 fl @ x @ drop 12 fl) = take 8 fl"
    and "drop 12 (take 8 fl @ x @ drop 12 fl) = drop 12 fl"
    and "magic_of (take 8 fl @ x @ drop 12 fl) = magic_of fl"
  using assms by (simp_all add: magic_of_def)

section \<open>Checksum algebra\<close>

text \<open>
  Claim C5. For every byte sequence \<open>B\<close> of even length, \<open>_checksum_buffer\<close> returns a
  sum \<open>s\<close> (it does not raise), \<open>s\<close> plus the complement \<open>(0x10000 - s) & 0xFFFF\<close>
  that \<open>cmd_build\<close> emits is 0 modulo 65536, the complement packs as a \<open>">H"\<close> word, and
  summing \<open>B\<close> followed by that word gives the accumulator 0.
\<close>

theorem checksum_algebra:
  "even (length B) \<Longrightarrow>
   (case checksum_buffer B 0 of
      Inl e \<Rightarrow> False
    | Inr s \<Rightarrow>
        (s + ((0x10000 - s) AND 0xFFFF)) mod 65536 = 0 \<and>
        (case pack_H ((0x10000 - s) AND 0xFFFF) of
           Inl e \<Rightarrow> False
         | Inr w \<Rightarrow> checksum_buffer (B @ w) 0 = Inr 0))"
proof -
  assume ev: "even (length B)"
  define s where "s = sum16 0 B"
  define k where "k = (0x10000 - s) AND 0xFFFF"
  have s: "checksum_buffer B 0 = Inr s"
    using ev by (simp add: checksum_buffer_sum16 s_def)
  have r: "0 \<le> s \<and> s < 65536"
    unfolding s_def by (rule sum16_range) simp_all
  have k: "k = (65536 - s) mod 65536"
    by (simp add: k_def and_ffff)
  then have kr: "0 \<le> k \<and> k \<le> 0xFFFF" by simp
  have z: "(s + k) mod 65536 = 0"
    unfolding k by (simp add: mod_add_right_eq)
  have p: "pack_H k = Inr [word_of_int (k div 256), word_of_int k]"
    using kr by (simp add: pack_H_def)
  have "checksum_buffer (B @ [word_of_int (k div 256), word_of_int k]) 0
      = Inr (sum16 0 (B @ [word_of_int (k div 256), word_of_int k]))"
    using ev by (simp add: checksum_buffer_sum16)
  also have "sum16 0 (B @ [word_of_int (k div 256), word_of_int k]) = (s + k) mod 65536"
    using ev kr by (simp add: sum16_append s_def [symmetric] be_int_pack_H)
  finally have "checksum_buffer (B @ [word_of_int (k div 256), word_of_int k]) 0 = Inr 0"
    using z by simp
  with s z p show ?thesis
    by (simp add: k_def [symmetric])
qed

theorem checksum_algebra_witness:
  "even (length [0x12, 0x34, 0xFF, 0xFF :: byte]) \<and>
   (case checksum_buffer [0x12, 0x34, 0xFF, 0xFF] 0 of
      Inl e \<Rightarrow> False
    | Inr s \<Rightarrow>
        (s + ((0x10000 - s) AND 0xFFFF)) mod 65536 = 0 \<and>
        (case pack_H ((0x10000 - s) AND 0xFFFF) of
           Inl e \<Rightarrow> False
         | Inr w \<Rightarrow> checksum_buffer ([0x12, 0x34, 0xFF, 0xFF] @ w) 0 = Inr 0))"
proof -
  have h: "even (length [0x12, 0x34, 0xFF, 0xFF :: byte])" by simp
  from checksum_algebra [OF h] h show ?thesis by blast
qed

section \<open>cmd\_check verifies the protected range\<close>

text \<open>
  As claim C3 states it, \<open>cmd_check\<close> sums the words of the first \<open>protected_size\<close>
  bytes, and passes if and only if that sum is 0. The loop runs \<open>rtl_size//2\<close> times,
  so when the protected size is odd the last protected byte is never read. The file
  \<open>odd_rootfs\<close> has the protected size 643: the words of its first 643 bytes, the last
  byte \<open>7F\<close> padded with a zero low byte, sum to \<open>0x7F00\<close>, and \<open>cmd_check\<close> prints
  ``Checksum passed''.
\<close>

theorem check_verifies_counterexample:
  "magic_of odd_rootfs = SQUASHFS_MAGIC_BE \<and>
   protected_size odd_rootfs = 643 \<and>
   protected_size odd_rootfs \<le> int (length odd_rootfs) \<and>
   sum16 0 (take (nat (protected_size odd_rootfs)) odd_rootfs) = 0x7F00 \<and>
   fst (cmd_check odd_rootfs) = Inr [''Checksum passed'']"
proof -
  have b: "protected_size odd_rootfs \<le> int (length odd_rootfs)"
    by (simp add: odd_rootfs_size odd_rootfs_length)
  have "fst (cmd_check odd_rootfs) = Inr [''Checksum passed'']"
    unfolding cmd_check_accepted [OF odd_rootfs_magic b]
    by (simp add: odd_rootfs_size odd_rootfs_even_sum)
  with b show ?thesis
    by (simp add: odd_rootfs_magic odd_rootfs_size odd_rootfs_sum)
qed

text \<open>
  Claim C3, for the bytes that are read. For every file that \<open>cmd_check\<close> accepts (the
  magic is right and the protected size is at most the file size), the command does not
  raise and prints one line: ``Checksum passed'' if the sum of the big-endian 16-bit
  words of the first \<open>2 * (protected_size div 2)\<close> bytes, reduced modulo 65536 after
  every addition, is 0, and ``Checksum failed'' otherwise. These are the first
  \<open>protected_size\<close> bytes when the protected size is even, and one byte less when it is
  odd.
\<close>

theorem check_verifies:
  assumes "magic_of file = SQUASHFS_MAGIC_BE"
    and "protected_size file \<le> int (length file)"
  shows "fst (cmd_check file) =
    Inr [if sum16 0 (take (2 * (nat (protected_size file) div 2)) file) = 0
         then ''Checksum passed'' else ''Checksum failed'']"
  using cmd_check_accepted [OF assms] by simp

theorem check_verifies_witness:
  "magic_of sample_rootfs = SQUASHFS_MAGIC_BE \<and>
   protected_size sample_rootfs \<le> int (length sample_rootfs) \<and>
   fst (cmd_check sample_rootfs) =
     Inr [if sum16 0 (take (2 * (nat (protected_size sample_rootfs) div 2)) sample_rootfs) = 0
          then ''Checksum passed'' else ''Checksum failed'']"
proof -
  have h: "protected_size sample_rootfs \<le> int (length sample_rootfs)"
    by (simp add: sample_size sample_length)
  from check_verifies [OF sample_magic h] sample_magic h show ?thesis by blast
qed

section \<open>Bound rejection\<close>

text \<open>
  As claim C6 states it, every file with the right magic and \<open>size_field + 642 > file_size\<close>
  is rejected with the \<open>RuntimeError\<close>. A file of 12 bytes has the magic and a size field,
  but \<open>struct.unpack\<close> wants 22 bytes and raises \<open>struct.error\<close> before either check.
\<close>

theorem bound_rejection_counterexample:
  "magic_of short_header = SQUASHFS_MAGIC_BE \<and>
   size_field short_header + 642 > int (length short_header) \<and>
   fst (cmd_check short_header) = Inl StructError \<and>
   fst (cmd_extract short_header) = Inl StructError"
proof -
  have l: "length short_header < 22" by (simp add: short_header_def)
  show ?thesis
    using l by (simp add: short_header_magic short_header_size cmd_check_short [OF l]
        cmd_extract_short [OF l])
qed

text \<open>
  Claim C6, amended. For every file of at least 22 bytes with the right magic and
  \<open>size_field + 642 > file_size\<close>, \<open>cmd_check\<close> and \<open>cmd_extract\<close> both raise
  \<open>RuntimeError("Not an RTL Squash filesystem")\<close>, and they do so before any word is
  summed: the variable \<open>checksum\<close> is still unassigned and the input cursor stands right
  after the header, at 22.
\<close>

theorem bound_rejection:
  assumes "22 \<le> length file"
    and "magic_of file = SQUASHFS_MAGIC_BE"
    and "size_field file + 642 > int (length file)"
  shows "cmd_check file =
           (Inl (RuntimeError ''Not an RTL Squash filesystem''),
            \<lparr>cursor = 22, outfile = None, acc = None\<rparr>) \<and>
         cmd_extract file =
           (Inl (RuntimeError ''Not an RTL Squash filesystem''),
            \<lparr>cursor = 22, outfile = Some (take 22 file), acc = None\<rparr>)"
  using assms by (simp add: cmd_check_long cmd_extract_long protected_size_def)

theorem bound_rejection_witness:
  "22 \<le> length bare_header \<and> magic_of bare_header = SQUASHFS_MAGIC_BE \<and>
   size_field bare_header + 642 > int (length bare_header) \<and>
   cmd_check bare_header =
     (Inl (RuntimeError ''Not an RTL Squash filesystem''),
      \<lparr>cursor = 22, outfile = None, acc = None\<rparr>) \<and>
   cmd_extract bare_header =
     (Inl (RuntimeError ''Not an RTL Squash filesystem''),
      \<lparr>cursor = 22, outfile = Some (take 22 bare_header), acc = None\<rparr>)"
proof -
  have l: "22 \<le> length bare_header" by (simp add: bare_header_def)
  have m: "magic_of bare_header = SQUASHFS_MAGIC_BE"
    by (simp add: magic_of_def bare_header_def be_int_def SQUASHFS_MAGIC_BE_def)
  have s: "size_field bare_header + 642 > int (length bare_header)"
    by (simp add: size_field_def bare_header_def be_int_def)
  from bound_rejection [OF l m s] l m s show ?thesis by blast
qed

section \<open>Magic rejection\<close>

text \<open>
  As claim C7 states it, every file whose first four bytes are not the magic is rejected
  with the \<open>RuntimeError\<close> by every command. A file of four zero bytes is too short for
  either header read, and every command raises \<open>struct.error\<close> instead.
\<close>

theorem magic_rejection_counterexample:
  "magic_of zeros4 \<noteq> SQUASHFS_MAGIC_BE \<and>
   fst (cmd_check zeros4) = Inl StructError \<and>
   fst (cmd_build False zeros4) = Inl StructError \<and>
   fst (cmd_sum zeros4) = Inl StructError \<and>
   fst (cmd_extract zeros4) = Inl StructError"
proof -
  have l: "length zeros4 < 22" and l': "length zeros4 < 8"
    by (simp_all add: zeros4_def)
  have m: "magic_of zeros4 \<noteq> SQUASHFS_MAGIC_BE"
    by (simp add: magic_of_def zeros4_def be_int_def SQUASHFS_MAGIC_BE_def)
  show ?thesis
    by (simp add: m cmd_check_short [OF l] cmd_extract_short [OF l] cmd_build_short [OF l']
        cmd_sum_def)
qed

text \<open>
  Claim C7, amended. For every file of at least 22 bytes whose first four bytes, read as a
  big-endian integer, are not \<open>0x68737173\<close>, each of \<open>check\<close>, \<open>build\<close>, \<open>sum\<close> and
  \<open>extract\<close> raises \<open>RuntimeError("Doesn't appear to be a SquashFS.")\<close>.
\<close>

theorem magic_rejection:
  assumes "22 \<le> length file"
    and "magic_of file \<noteq> SQUASHFS_MAGIC_BE"
  shows "fst (cmd_check file) = Inl (RuntimeError ''Doesn't appear to be a SquashFS.'') \<and>
         fst (cmd_build False file) = Inl (RuntimeError ''Doesn't appear to be a SquashFS.'') \<and>
         fst (cmd_sum file) = Inl (RuntimeError ''Doesn't appear to be a SquashFS.'') \<and>
         fst (cmd_extract file) = Inl (RuntimeError ''Doesn't appear to be a SquashFS.'')"
proof -
  from assms(1) have l8: "8 \<le> length file" by simp
  show ?thesis
    using assms
    by (simp add: cmd_check_long cmd_extract_long cmd_build_bad_magic [OF l8] cmd_sum_def)
qed

theorem magic_rejection_witness:
  "22 \<le> length zeros22 \<and> magic_of zeros22 \<noteq> SQUASHFS_MAGIC_BE \<and>
   fst (cmd_check zeros22) = Inl (RuntimeError ''Doesn't appear to be a SquashFS.'') \<and>
   fst (cmd_build False zeros22) = Inl (RuntimeError ''Doesn't appear to be a SquashFS.'') \<and>
   fst (cmd_sum zeros22) = Inl (RuntimeError ''Doesn't appear to be a SquashFS.'') \<and>
   fst (cmd_extract zeros22) = Inl (RuntimeError ''Doesn't appear to be a SquashFS.'')"
proof -
  have l: "22 \<le> length zeros22" by (simp add: zeros22_def)
  from magic_rejection [OF l zeros22_magic] l zeros22_magic show ?thesis by blast
qed

section \<open>What cmd\_extract leaves behind when it rejects its input\<close>

text \<open>
  As claim C9 states it, the output file then holds the 18-byte header prefix. The prefix
  that \<open>cmd_extract\<close> reads and writes is \<open>struct.calcsize(">IIIIIH")\<close> = 22 bytes long.
\<close>

theorem extract_error_header_counterexample:
  "fst (cmd_extract zeros22) = Inl (RuntimeError ''Doesn't appear to be a SquashFS.'') \<and>
   outfile (snd (cmd_extract zeros22)) = Some (take 22 zeros22) \<and>
   take 22 zeros22 \<noteq> take 18 zeros22"
proof -
  have l: "22 \<le> length zeros22" by (simp add: zeros22_def)
  have "take 22 zeros22 \<noteq> take 18 zeros22" by (simp add: zeros22_def)
  then show ?thesis
    by (simp add: cmd_extract_long [OF l] zeros22_magic)
qed

text \<open>
  Claim C9, amended. When \<open>cmd_extract\<close> raises a \<open>RuntimeError\<close> (wrong magic, or a
  protected size beyond the file size), the output file has been created and holds the
  22-byte header prefix read from the input, written before either check; no word has
  been summed.
\<close>

theorem extract_error_header:
  assumes "fst (cmd_extract file) = Inl (RuntimeError m)"
  shows "outfile (snd (cmd_extract file)) = Some (take 22 file) \<and>
         length (take 22 file) = 22 \<and>
         acc (snd (cmd_extract file)) = None"
proof (cases "length file < 22")
  case True
  with assms show ?thesis by (simp add: cmd_extract_short)
next
  case False
  then have len: "22 \<le> length file" by simp
  show ?thesis
  proof (cases "magic_of file = SQUASHFS_MAGIC_BE \<and> protected_size file \<le> int (length file)")
    case True
    then have a: "magic_of file = SQUASHFS_MAGIC_BE"
      and b: "protected_size file \<le> int (length file)" by simp_all
    from extract_accepted [OF a b] assms show ?thesis by auto
  next
    case False
    with len show ?thesis by (auto simp add: cmd_extract_long [OF len])
  qed
qed

theorem extract_error_header_witness:
  "fst (cmd_extract zeros22) = Inl (RuntimeError ''Doesn't appear to be a SquashFS.'') \<and>
   outfile (snd (cmd_extract zeros22)) = Some (take 22 zeros22) \<and>
   length (take 22 zeros22) = 22 \<and>
   acc (snd (cmd_extract zeros22)) = None"
proof -
  have l: "22 \<le> length zeros22" by (simp add: zeros22_def)
  have h: "fst (cmd_extract zeros22) = Inl (RuntimeError ''Doesn't appear to be a SquashFS.'')"
    by (simp add: cmd_extract_long [OF l] zeros22_magic)
  from extract_error_header [OF h] h show ?thesis by blast
qed

section \<open>The length of what cmd\_extract writes\<close>

text \<open>
  Claim C2 says the output of \<open>cmd_extract\<close> on a well-formed image is
  \<open>protected_size - 2\<close> bytes long. On \<open>sample_rootfs\<close>, whose protected size is its file
  size, 642, the command writes 662 bytes: the 22-byte header first, then, after
  \<open>f.seek(0)\<close>, every word of the file but the last, the header among them once more.
\<close>

theorem extract_output_length:
  "magic_of sample_rootfs = SQUASHFS_MAGIC_BE \<and>
   protected_size sample_rootfs = int (length sample_rootfs) \<and>
   protected_size sample_rootfs - 2 = 640 \<and>
   map_option length (outfile (snd (cmd_extract sample_rootfs))) = Some 662"
proof -
  have p: "protected_size sample_rootfs = int (length sample_rootfs)"
    by (simp add: sample_size sample_length)
  have e: "even (length sample_rootfs)" by (simp add: sample_length)
  show ?thesis
    by (simp add: extract_output [OF sample_magic p e] sample_magic sample_size sample_length)
qed

section \<open>The size field that cmd\_build writes\<close>

text \<open>
  Claim C4. For every input that \<open>cmd_build\<close> accepts (it returns without raising), the
  output exists and its size field, the big-endian integer at offsets 8 to 11, is the
  length of the input minus 640, rounded up to the nearest even number. The four bytes
  that the input has at offsets 8 to 11 have no influence: replacing them by any four
  bytes \<open>x\<close> leaves the whole result of \<open>cmd_build\<close> unchanged.
\<close>

theorem build_size_field:
  assumes "fst (cmd_build False fl) = Inr []" and "length x = 4"
  shows "(case outfile (snd (cmd_build False fl)) of
            None \<Rightarrow> False
          | Some out \<Rightarrow> size_field out = rounded_size fl) \<and>
         cmd_build False (take 8 fl @ x @ drop 12 fl) = cmd_build False fl"
proof -
  from build_accepted_conditions [OF assms(1)]
  have m: "magic_of fl = SQUASHFS_MAGIC_BE" and lo: "639 \<le> length fl"
    and hi: "length fl \<le> 4294967934" by simp_all
  have l12: "12 \<le> length fl" using lo by simp
  note e = same_but_size_field [OF l12 assms(2)]
  have m': "magic_of (take 8 fl @ x @ drop 12 fl) = SQUASHFS_MAGIC_BE"
    unfolding e(4) by (rule m)
  have lo': "639 \<le> length (take 8 fl @ x @ drop 12 fl)"
    and hi': "length (take 8 fl @ x @ drop 12 fl) \<le> 4294967934"
    unfolding e(1) using lo hi by simp_all
  have p: "build_payload (take 8 fl @ x @ drop 12 fl) = build_payload fl"
    unfolding build_payload_def rounded_size_def e ..
  have c: "build_checksum_word (take 8 fl @ x @ drop 12 fl) = build_checksum_word fl"
    unfolding build_checksum_word_def p ..
  have "cmd_build False (take 8 fl @ x @ drop 12 fl) = cmd_build False fl"
    unfolding cmd_build_accepted [OF m lo hi] cmd_build_accepted [OF m' lo' hi'] p c e(1) ..
  then show ?thesis
    by (simp add: cmd_build_accepted [OF m lo hi] size_field_build_image [OF lo hi])
qed

theorem build_size_field_witness:
  "fst (cmd_build False sample_squashfs) = Inr [] \<and> length [0, 0, 0, 0 :: byte] = 4 \<and>
   (case outfile (snd (cmd_build False sample_squashfs)) of
      None \<Rightarrow> False
    | Some out \<Rightarrow> size_field out = rounded_size sample_squashfs) \<and>
   cmd_build False (take 8 sample_squashfs @ [0, 0, 0, 0] @ drop 12 sample_squashfs)
     = cmd_build False sample_squashfs \<and>
   rounded_size sample_squashfs = 0"
proof -
  have l: "length [0, 0, 0, 0 :: byte] = 4" by simp
  have r: "rounded_size sample_squashfs = 0"
    by (simp add: rounded_size_def sample_squashfs_length)
  from build_size_field [OF sample_squashfs_accepted l] sample_squashfs_accepted l r
  show ?thesis by blast
qed

section \<open>cmd\_sum writes the checksum word of cmd\_build\<close>

text \<open>
  Claim C8. For every input that the build command accepts, \<open>cmd_sum\<close> returns without
  raising too, its output is exactly 2 bytes long, and these are the last 2 bytes of the
  output of the build command on the same input.
\<close>

theorem sum_refines_build:
  assumes "fst (cmd_build False fl) = Inr []"
  shows "fst (cmd_sum fl) = Inr [] \<and>
    (case (outfile (snd (cmd_sum fl)), outfile (snd (cmd_build False fl))) of
       (Some w, Some out) \<Rightarrow> length w = 2 \<and> w = drop (length out - 2) out
     | _ \<Rightarrow> False)"
proof -
  from build_accepted_conditions [OF assms]
  have m: "magic_of fl = SQUASHFS_MAGIC_BE" and lo: "639 \<le> length fl"
    and hi: "length fl \<le> 4294967934" by simp_all
  have l: "length (build_checksum_word fl) = 2" by (simp add: build_checksum_word_def)
  show ?thesis
    unfolding cmd_sum_def cmd_build_accepted [OF m lo hi] by (simp add: l)
qed

theorem sum_refines_build_witness:
  "fst (cmd_build False sample_squashfs) = Inr [] \<and>
   fst (cmd_sum sample_squashfs) = Inr [] \<and>
   (case (outfile (snd (cmd_sum sample_squashfs)),
          outfile (snd (cmd_build False sample_squashfs))) of
      (Some w, Some out) \<Rightarrow> length w = 2 \<and> w = drop (length out - 2) out
    | _ \<Rightarrow> False)"
  using sum_refines_build [OF sample_squashfs_accepted] sample_squashfs_accepted by blast

section \<open>The length of what cmd\_build writes\<close>

text \<open>
  Claim C10. For every input that \<open>cmd_build\<close> accepts, the output is as long as the
  input rounded up to even, plus 2. Its payload, the output without the last 2 bytes, has
  even length: it is the first 8 bytes of the input, the 4 bytes of the size, the input
  from offset 12 on, and one zero byte when the length of the input is odd.
\<close>

theorem build_output_length:
  assumes "fst (cmd_build False fl) = Inr []"
  shows "case outfile (snd (cmd_build False fl)) of
           None \<Rightarrow> False
         | Some out \<Rightarrow>
             length out = 2 * ((length fl + 1) div 2) + 2 \<and>
             even (length (take (length out - 2) out)) \<and>
             take (length out - 2) out =
               take 8 fl @ be_bytes4 (rounded_size fl) @ drop 12 fl
               @ (if odd (length fl) then [0] else [])"
proof -
  from build_accepted_conditions [OF assms]
  have m: "magic_of fl = SQUASHFS_MAGIC_BE" and lo: "639 \<le> length fl"
    and hi: "length fl \<le> 4294967934" by simp_all
  have l12: "12 \<le> length fl" using lo by simp
  have l: "length (build_checksum_word fl) = 2" by (simp add: build_checksum_word_def)
  have p: "build_payload fl = take 8 fl @ be_bytes4 (rounded_size fl) @ drop 12 fl
               @ (if odd (length fl) then [0] else [])"
    using l12 by (simp add: build_payload_odd_even)
  have "length (build_payload fl @ build_checksum_word fl) = 2 * ((length fl + 1) div 2) + 2"
    by (simp add: length_build_payload [OF l12] l)
  moreover have "take (length (build_payload fl @ build_checksum_word fl) - 2)
      (build_payload fl @ build_checksum_word fl) = build_payload fl"
    by (simp add: l)
  moreover have "even (length (build_payload fl))"
    by (rule even_length_build_payload [OF l12])
  ultimately show ?thesis
    unfolding cmd_build_accepted [OF m lo hi] using p by (simp del: length_append)
qed

theorem build_output_length_witness:
  "fst (cmd_build False sample_squashfs) = Inr [] \<and> odd (length sample_squashfs) \<and>
   (case outfile (snd (cmd_build False sample_squashfs)) of
      None \<Rightarrow> False
    | Some out \<Rightarrow>
        length out = 2 * ((length sample_squashfs + 1) div 2) + 2 \<and>
        even (length (take (length out - 2) out)) \<and>
        take (length out - 2) out =
          take 8 sample_squashfs @ be_bytes4 (rounded_size sample_squashfs)
          @ drop 12 sample_squashfs @ (if odd (length sample_squashfs) then [0] else []))"
proof -
  have o: "odd (length sample_squashfs)" by (simp add: sample_squashfs_length)
  from build_output_length [OF sample_squashfs_accepted] sample_squashfs_accepted o
  show ?thesis by blast
qed

section \<open>Round trip\<close>

text \<open>
  As claim C1 states it, \<open>cmd_check\<close> passes on what \<open>cmd_build\<close> makes of any file
  of at least 12 bytes that starts with the magic. On a file of 12 bytes \<open>cmd_build\<close>
  computes the size 12 - 640 = -628, and \<open>struct.pack(">I", -628)\<close> raises
  \<open>struct.error\<close> before the output file is opened.
\<close>

theorem build_roundtrip_counterexample:
  "magic_of short_header = SQUASHFS_MAGIC_BE \<and> 12 \<le> length short_header \<and>
   cmd_build False short_header =
     (Inl StructError, \<lparr>cursor = 12, outfile = None, acc = None\<rparr>)"
proof -
  have l8: "8 \<le> length short_header" by (simp add: short_header_def)
  have out: "length short_header < 639 \<or> 4294967934 < length short_header"
    by (simp add: short_header_def)
  from cmd_build_size_rejected [OF short_header_magic l8 out, of False] short_header_magic
  show ?thesis by (simp add: short_header_def)
qed

text \<open>
  Claim C1, for inputs whose size fits the field. For every file \<open>P\<close> that starts with
  the magic and is at least 639 and at most 4294967934 bytes long, \<open>cmd_build\<close> returns
  without raising, and \<open>cmd_check\<close> on the file it has written prints
  ``Checksum passed''.
\<close>

theorem build_roundtrip:
  assumes "magic_of P = SQUASHFS_MAGIC_BE"
    and "639 \<le> length P" and "length P \<le> 4294967934"
  shows "fst (cmd_build False P) = Inr [] \<and>
    (case outfile (snd (cmd_build False P)) of
       None \<Rightarrow> False
     | Some img \<Rightarrow> fst (cmd_check img) = Inr [''Checksum passed''])"
  unfolding cmd_build_accepted [OF assms] using check_build_image [OF assms] by simp

theorem build_roundtrip_witness:
  "magic_of sample_squashfs = SQUASHFS_MAGIC_BE \<and>
   639 \<le> length sample_squashfs \<and> length sample_squashfs \<le> 4294967934 \<and>
   fst (cmd_build False sample_squashfs) = Inr [] \<and>
   (case outfile (snd (cmd_build False sample_squashfs)) of
      None \<Rightarrow> False
    | Some img \<Rightarrow> fst (cmd_check img) = Inr [''Checksum passed''])"
proof -
  have lo: "639 \<le> length sample_squashfs" and hi: "length sample_squashfs \<le> 4294967934"
    by (simp_all add: sample_squashfs_length)
  from build_roundtrip [OF sample_squashfs_magic lo hi] sample_squashfs_magic lo hi
  show ?thesis by blast
qed

end
